theory Spec2Isabelle
  imports Main "HOL-Library.Word"
begin

section \<open>MonacoDiffComponent: debounced suggestion trigger and lint marker formatter\<close>

text \<open>
  A shallow embedding of \<^verbatim>\<open>src/ui/src/components/blocks/MonacoDiffComponent.js\<close>.
  The component is a class with one mutable field (\<^verbatim>\<open>this.timer\<close>) and a React state
  object; its handlers run to completion on one thread. The platform pieces the handlers
  call (\<^verbatim>\<open>setTimeout\<close>, \<^verbatim>\<open>clearTimeout\<close>, the editor handle, the marker store, the
  host's two callbacks) are an explicit environment, and every call the source makes on
  it is recorded, with the time, in a trace.
\<close>

subsection \<open>Data\<close>

text \<open>An editor object is known by its identity only.\<close>

type_synonym editor = nat

text \<open>The argument of \<^verbatim>\<open>editorDidMount\<close>: a diff editor, of which
  \<^verbatim>\<open>editor.modifiedEditor\<close> is read.\<close>

record diff_editor =
  de_originalEditor :: editor
  de_modifiedEditor :: editor

text \<open>One entry of \<^verbatim>\<open>e.changes\<close> and the event \<^verbatim>\<open>e\<close> itself.\<close>

record change =
  "text" :: string
  rangeOffset :: nat
  rangeLength :: nat

record change_event =
  changes :: "change list"

text \<open>A text model (\<^verbatim>\<open>getModeId()\<close>, \<^verbatim>\<open>uri\<close>).\<close>

record model =
  modeId :: string
  uri :: string

text \<open>The line and column numbers of a marker are JavaScript Numbers, that is, doubles.
  The editor only ever puts whole numbers counted from 1 there, bounded by the length of
  the text. The model takes them from the non-negative safe integers, \<open>0 \<le> n < 2\<^sup>5\<^sup>3\<close>
  (\<^verbatim>\<open>Number.MAX_SAFE_INTEGER\<close> is \<open>2\<^sup>5\<^sup>3 - 1\<close>): every such integer is a double, and no
  other value is of this type. Fractions, negative numbers, \<^verbatim>\<open>NaN\<close> and the doubles
  from \<open>2\<^sup>5\<^sup>3\<close> on, which a template literal prints rounded or with an exponent, are
  outside the model. No arithmetic is done on these numbers.\<close>

type_synonym safe_integer = "53 word"

record marker =
  startLineNumber :: safe_integer
  startColumn :: safe_integer
  endLineNumber :: safe_integer
  endColumn :: safe_integer
  message :: string

text \<open>What the handlers read from the editor framework at the moment they run:
  \<^verbatim>\<open>modifiedEditor.getModel()\<close> (\<^verbatim>\<open>null\<close> is \<open>None\<close>) and
  \<^verbatim>\<open>monaco.editor.getModelMarkers({ owner, resource })\<close>.\<close>

record monaco_env =
  getModel :: "editor \<Rightarrow> model option"
  getModelMarkers :: "string \<Rightarrow> string \<Rightarrow> marker list"

datatype js_error = TypeError

text \<open>The calls that leave the component.\<close>

datatype effect =
    ValueChange string
  | LintError "string list"
  | GetModelMarkers string string
  | TriggerCall editor string string
  | UncaughtError js_error

text \<open>The arrow function given to \<^verbatim>\<open>setTimeout\<close> closes over the constant
  \<^verbatim>\<open>modifiedEditor\<close> that \<^verbatim>\<open>onChange\<close> read from the state when it scheduled the
  timer; the closure is that captured value.\<close>

datatype callback = TriggerSuggestCb "editor option"

record pending =
  handle :: nat
  due :: nat
  callback :: callback

text \<open>The platform: a clock, the timer table, the editors on which the decoration
  listener is registered (one entry for each registration), and the trace.\<close>

record browser =
  clock :: nat
  next_handle :: nat
  timers :: "pending list"
  listeners :: "editor list"
  trace :: "(nat \<times> effect) list"

text \<open>The component instance: \<^verbatim>\<open>this.timer\<close> and the three fields of
  \<^verbatim>\<open>this.state\<close>.\<close>

record component =
  timer :: "nat option"
  debounceWait :: nat
  modifiedEditor :: "editor option"
  triggerCharacters :: "string list"

record sys =
  this :: component
  env :: browser

subsection \<open>Platform timers\<close>

text \<open>\<^verbatim>\<open>setTimeout\<close> returns a fresh positive handle and files the callback under
  it; \<^verbatim>\<open>clearTimeout\<close> removes the timer with that handle if there is one, and does
  nothing for \<^verbatim>\<open>null\<close> or a handle that is no longer in the table.\<close>

definition setTimeout :: "callback \<Rightarrow> nat \<Rightarrow> browser \<Rightarrow> nat \<times> browser" where
  "setTimeout cb delay b =
     (next_handle b,
      b\<lparr>next_handle := Suc (next_handle b),
        timers := timers b @ [\<lparr>handle = next_handle b, due = clock b + delay, callback = cb\<rparr>]\<rparr>)"

definition clearTimeout :: "nat option \<Rightarrow> browser \<Rightarrow> browser" where
  "clearTimeout h b =
     (case h of
        None \<Rightarrow> b
      | Some i \<Rightarrow> b\<lparr>timers := filter (\<lambda>p. handle p \<noteq> i) (timers b)\<rparr>)"

definition emit :: "effect \<Rightarrow> browser \<Rightarrow> browser" where
  "emit x b = b\<lparr>trace := trace b @ [(clock b, x)]\<rparr>"

text \<open>The body of the scheduled arrow function:
  \<^verbatim>\<open>modifiedEditor.trigger("manual_trigger", "editor.action.triggerSuggest")\<close>.
  A method call on \<^verbatim>\<open>null\<close> raises.\<close>

fun run_callback :: "callback \<Rightarrow> js_error + effect" where
  "run_callback (TriggerSuggestCb None) = Inl TypeError"
| "run_callback (TriggerSuggestCb (Some ed)) =
     Inr (TriggerCall ed ''manual_trigger'' ''editor.action.triggerSuggest'')"

definition fire :: "nat \<Rightarrow> pending \<Rightarrow> nat \<times> effect" where
  "fire now p =
     (max now (due p),
      case run_callback (callback p) of Inl err \<Rightarrow> UncaughtError err | Inr x \<Rightarrow> x)"

text \<open>Time passing: every timer that has come due runs once, in the order of the due
  times, at its due time, and leaves the table. The callbacks of this component set no
  timers, so one pass is the whole story.\<close>

definition advance :: "nat \<Rightarrow> browser \<Rightarrow> browser" where
  "advance d b =
     (let t = clock b + d;
          ready = sort_key due (filter (\<lambda>p. due p \<le> t) (timers b))
      in b\<lparr>clock := t,
           timers := filter (\<lambda>p. \<not> due p \<le> t) (timers b),
           trace := trace b @ map (fire (clock b)) ready\<rparr>)"

subsection \<open>The component\<close>

text \<open>\<^verbatim>\<open>getMonacoTriggerCharacters()\<close> lives in \<^verbatim>\<open>helpers/utils\<close>, outside the
  file; its result is a parameter of the constructor.\<close>

definition constructor :: "string list \<Rightarrow> sys" where
  "constructor tc =
     \<lparr>this = \<lparr>timer = None, debounceWait = 300, modifiedEditor = None,
              triggerCharacters = tc\<rparr>,
      env = \<lparr>clock = 0, next_handle = 1, timers = [], listeners = [], trace = []\<rparr>\<rparr>"

text \<open>JavaScript indexing: out of range gives \<^verbatim>\<open>undefined\<close>.\<close>

definition index :: "'a list \<Rightarrow> nat \<Rightarrow> 'a option" where
  "index xs i = (if i < length xs then Some (xs ! i) else None)"

text \<open>\<^verbatim>\<open>this.onValueChange(newValue)\<close>\<close>

definition onValueChange :: "string \<Rightarrow> browser \<Rightarrow> browser" where
  "onValueChange newValue b = emit (ValueChange newValue) b"

text \<open>\<^verbatim>\<open>onChange(newValue, e)\<close>. Reading \<^verbatim>\<open>.text\<close> of \<^verbatim>\<open>undefined\<close> would
  raise; that is the \<open>Inl\<close> branch.\<close>

definition onChange :: "string \<Rightarrow> change_event \<Rightarrow> sys \<Rightarrow> js_error + sys" where
  "onChange newValue e s =
     (let c = this s; b = env s in
      if length (changes e) > 0 then
        (case index (changes e) 0 of
           None \<Rightarrow> Inl TypeError
         | Some ch \<Rightarrow>
             (let characterTyped = text ch in
              if characterTyped \<in> set (triggerCharacters c) then
                (let b1 = clearTimeout (timer c) b;
                     (h, b2) = setTimeout (TriggerSuggestCb (modifiedEditor c)) (debounceWait c) b1
                 in Inr \<lparr>this = c\<lparr>timer := Some h\<rparr>, env = onValueChange newValue b2\<rparr>)
              else Inr \<lparr>this = c, env = onValueChange newValue b\<rparr>))
      else Inr \<lparr>this = c, env = onValueChange newValue b\<rparr>)"

text \<open>The decimal digits of a natural number, most significant first.\<close>

fun decimal_digits :: "nat \<Rightarrow> string" where
  "decimal_digits n =
     (if n < 10 then [''0123456789'' ! n]
      else decimal_digits (n div 10) @ [''0123456789'' ! (n mod 10)])"

declare decimal_digits.simps [simp del]

text \<open>Number to string, as a template literal applies it, on the safe integers: there,
  and only there among the doubles this large, the shortest digits that read back as the
  same double are all the decimal digits of the integer, and no exponent is written.\<close>

definition ToString :: "safe_integer \<Rightarrow> string" where
  "ToString x = decimal_digits (unat x)"

text \<open>The arrow function given to \<^verbatim>\<open>markers.map\<close>.\<close>

definition formatMarker :: "marker \<Rightarrow> string" where
  "formatMarker m =
     ''Lint error on line '' @ ToString (startLineNumber m) @ '' columns '' @
     ToString (startColumn m) @ ''-'' @ ToString (endColumn m) @ '': '' @ message m"

definition formatMarkers :: "marker list \<Rightarrow> string list" where
  "formatMarkers markers = map formatMarker markers"

text \<open>The listener registered by \<^verbatim>\<open>editorDidMount\<close>. It reads
  \<^verbatim>\<open>this.state.modifiedEditor\<close> when it runs.\<close>

definition onDidChangeModelDecorations_listener ::
    "monaco_env \<Rightarrow> component \<Rightarrow> js_error + effect list" where
  "onDidChangeModelDecorations_listener M c =
     (case modifiedEditor c of
        None \<Rightarrow> Inl TypeError
      | Some ed \<Rightarrow>
          (case getModel M ed of
             None \<Rightarrow> Inr []
           | Some mdl \<Rightarrow>
               if modeId mdl \<noteq> ''json'' then Inr []
               else
                 (let owner = modeId mdl;
                      resource = uri mdl;
                      markers = getModelMarkers M owner resource
                  in Inr [GetModelMarkers owner resource,
                          LintError (formatMarkers markers)])))"

text \<open>\<^verbatim>\<open>editorDidMount(editor)\<close>: register the listener on
  \<^verbatim>\<open>editor.modifiedEditor\<close>, then \<^verbatim>\<open>setState\<close>. The state update is in force when
  the next event is handled.\<close>

definition editorDidMount :: "diff_editor \<Rightarrow> sys \<Rightarrow> sys" where
  "editorDidMount editor s =
     \<lparr>this = (this s)\<lparr>modifiedEditor := Some (de_modifiedEditor editor)\<rparr>,
      env = (env s)\<lparr>listeners := listeners (env s) @ [de_modifiedEditor editor]\<rparr>\<rparr>"

subsection \<open>The event loop\<close>

datatype event =
    Change string change_event
  | Mount diff_editor
  | Elapse nat
  | DecorationsChanged editor monaco_env

definition emit_all :: "effect list \<Rightarrow> browser \<Rightarrow> browser" where
  "emit_all xs b = b\<lparr>trace := trace b @ map (\<lambda>x. (clock b, x)) xs\<rparr>"

definition notify :: "monaco_env \<Rightarrow> sys \<Rightarrow> sys" where
  "notify M s =
     (case onDidChangeModelDecorations_listener M (this s) of
        Inl err \<Rightarrow> s\<lparr>env := emit (UncaughtError err) (env s)\<rparr>
      | Inr xs \<Rightarrow> s\<lparr>env := emit_all xs (env s)\<rparr>)"

text \<open>An event runs its handler to the end; an exception that escapes a handler is
  reported and the loop goes on. A decoration change on an editor calls the listener once
  for each time it was registered there.\<close>

fun step :: "sys \<Rightarrow> event \<Rightarrow> sys" where
  "step s (Change newValue e) =
     (case onChange newValue e s of
        Inl err \<Rightarrow> s\<lparr>env := emit (UncaughtError err) (env s)\<rparr>
      | Inr s' \<Rightarrow> s')"
| "step s (Mount editor) = editorDidMount editor s"
| "step s (Elapse d) = s\<lparr>env := advance d (env s)\<rparr>"
| "step s (DecorationsChanged ed M) =
     foldl (\<lambda>s' _. notify M s') s (filter (\<lambda>l. l = ed) (listeners (env s)))"

definition run :: "sys \<Rightarrow> event list \<Rightarrow> sys" where
  "run s evs = foldl step s evs"

subsection \<open>Observations on a run\<close>

text \<open>The suggestion requests made so far: the calls of \<^verbatim>\<open>modifiedEditor.trigger\<close> in
  the trace, with their times.\<close>

fun is_TriggerCall :: "effect \<Rightarrow> bool" where
  "is_TriggerCall (TriggerCall ed source action) = True"
| "is_TriggerCall x = False"

definition suggestion_requests :: "sys \<Rightarrow> (nat \<times> effect) list" where
  "suggestion_requests s = filter (\<lambda>x. is_TriggerCall (snd x)) (trace (env s))"

text \<open>The condition under which \<^verbatim>\<open>onChange\<close> schedules: the two nested tests of the
  source, on the length of \<^verbatim>\<open>e.changes\<close> and on the text of its first entry.\<close>

definition qualifying :: "string list \<Rightarrow> change_event \<Rightarrow> bool" where
  "qualifying tc e = (case changes e of [] \<Rightarrow> False | ch # rest \<Rightarrow> text ch \<in> set tc)"

text \<open>A burst of keystrokes: each change event is followed by a pause; \<open>gaps\<close> is the
  time the burst takes.\<close>

fun rapid :: "(string \<times> change_event \<times> nat) list \<Rightarrow> event list" where
  "rapid [] = []"
| "rapid ((newValue, e, gap) # ks) = Change newValue e # Elapse gap # rapid ks"

fun gaps :: "(string \<times> change_event \<times> nat) list \<Rightarrow> nat" where
  "gaps [] = 0"
| "gaps ((newValue, e, gap) # ks) = gap + gaps ks"

text \<open>Reading a decimal numeral back, to say what \<open>ToString\<close> produces.\<close>

definition digit_value :: "char \<Rightarrow> nat" where
  "digit_value c = of_char c - 48"

definition decimal :: "string \<Rightarrow> nat" where
  "decimal cs = foldl (\<lambda>a c. 10 * a + digit_value c) 0 cs"

subsection \<open>Invariant of the reachable states\<close>

text \<open>The configuration is never written after construction; at most one timer is in the
  table, it is the one \<^verbatim>\<open>this.timer\<close> names, and it is not overdue; once the listener
  is registered the state holds the editor handle.\<close>

definition wf_sys :: "string list \<Rightarrow> sys \<Rightarrow> bool" where
  "wf_sys tc s \<longleftrightarrow>
     debounceWait (this s) = 300 \<and> triggerCharacters (this s) = tc \<and>
     length (timers (env s)) \<le> 1 \<and>
     (\<forall>p\<in>set (timers (env s)).
        timer (this s) = Some (handle p) \<and> handle p < next_handle (env s) \<and>
        clock (env s) \<le> due p) \<and>
     (listeners (env s) \<noteq> [] \<longrightarrow>
        modifiedEditor (this s) = Some (last (listeners (env s))))"

text \<open>After mounting: the state holds an editor handle, every pending callback has
  captured one, and no error has been reported.\<close>

definition mounted_ok :: "sys \<Rightarrow> bool" where
  "mounted_ok s \<longleftrightarrow>
     modifiedEditor (this s) \<noteq> None \<and>
     (\<forall>p\<in>set (timers (env s)). callback p \<noteq> TriggerSuggestCb None) \<and>
     (\<forall>x\<in>set (trace (env s)). \<forall>err. snd x \<noteq> UncaughtError err)"

section \<open>Properties of the model\<close>

subsection \<open>What onChange does, case by case\<close>

lemma index_Cons_0: "index (x # xs) 0 = Some x"
  by (simp add: index_def)

lemma onChange_empty:
  "changes e = [] \<Longrightarrow>
   onChange newValue e s = Inr \<lparr>this = this s, env = emit (ValueChange newValue) (env s)\<rparr>"
  by (simp add: onChange_def onValueChange_def Let_def)

lemma onChange_other:
  "changes e = ch # rest \<Longrightarrow> text ch \<notin> set (triggerCharacters (this s)) \<Longrightarrow>
   onChange newValue e s = Inr \<lparr>this = this s, env = emit (ValueChange newValue) (env s)\<rparr>"
  by (simp add: onChange_def onValueChange_def index_Cons_0 Let_def)

lemma onChange_trigger:
  "changes e = ch # rest \<Longrightarrow> text ch \<in> set (triggerCharacters (this s)) \<Longrightarrow>
   onChange newValue e s =
     Inr \<lparr>this = (this s)\<lparr>timer := Some (next_handle (env s))\<rparr>,
          env = emit (ValueChange newValue)
                  ((env s)\<lparr>next_handle := Suc (next_handle (env s)),
                           timers := filter (\<lambda>p. \<forall>i. timer (this s) = Some i \<longrightarrow> handle p \<noteq> i) (timers (env s)) @
                             [\<lparr>handle = next_handle (env s),
                               due = clock (env s) + debounceWait (this s),
                               callback = TriggerSuggestCb (modifiedEditor (this s))\<rparr>]\<rparr>)\<rparr>"
  by (cases "timer (this s)")
     (simp_all add: onChange_def onValueChange_def index_Cons_0 setTimeout_def clearTimeout_def emit_def Let_def)

lemma onChange_total: "\<exists>s'. onChange newValue e s = Inr s'"
proof (cases "changes e")
  case Nil
  then show ?thesis by (simp add: onChange_empty)
next
  case (Cons ch rest)
  then show ?thesis
    by (cases "text ch \<in> set (triggerCharacters (this s))")
       (simp_all add: onChange_trigger onChange_other)
qed

subsection \<open>The invariant holds in every reachable state\<close>

lemma wf_constructor: "wf_sys tc (constructor tc)"
  by (simp add: wf_sys_def constructor_def)

lemma filter_own_timer:
  assumes "\<forall>p\<in>set ps. h = Some (handle p)"
  shows "filter (\<lambda>p. \<forall>i. h = Some i \<longrightarrow> handle p \<noteq> i) ps = []"
  using assms by (induction ps) auto

lemma wf_onChange:
  assumes "wf_sys tc s" and "onChange newValue e s = Inr s'"
  shows "wf_sys tc s'"
proof (cases "changes e")
  case Nil
  with assms show ?thesis
    by (auto simp add: onChange_empty wf_sys_def emit_def)
next
  case (Cons ch rest)
  show ?thesis
  proof (cases "text ch \<in> set (triggerCharacters (this s))")
    case False
    with Cons assms show ?thesis
      by (auto simp add: onChange_other wf_sys_def emit_def)
  next
    case True
    from assms(1) have "\<forall>p\<in>set (timers (env s)). timer (this s) = Some (handle p)"
      by (simp add: wf_sys_def)
    then have "filter (\<lambda>p. \<forall>i. timer (this s) = Some i \<longrightarrow> handle p \<noteq> i) (timers (env s)) = []"
      by (rule filter_own_timer)
    with True Cons assms show ?thesis
      by (auto simp add: onChange_trigger wf_sys_def emit_def)
  qed
qed

lemma notify_frame:
  "this (notify M s) = this s \<and> clock (env (notify M s)) = clock (env s) \<and>
   next_handle (env (notify M s)) = next_handle (env s) \<and>
   timers (env (notify M s)) = timers (env s) \<and>
   listeners (env (notify M s)) = listeners (env s)"
  by (simp add: notify_def emit_def emit_all_def split: sum.splits)

lemma wf_notify: "wf_sys tc (notify M s) = wf_sys tc s"
  by (simp add: wf_sys_def notify_frame)

lemma wf_notify_all: "wf_sys tc s \<Longrightarrow> wf_sys tc (foldl (\<lambda>s' _. notify M s') s ls)"
  by (induction ls arbitrary: s) (simp_all add: wf_notify)

lemma wf_advance:
  assumes "wf_sys tc s"
  shows "wf_sys tc (s\<lparr>env := advance d (env s)\<rparr>)"
proof -
  have "length (filter (\<lambda>p. \<not> due p \<le> clock (env s) + d) (timers (env s))) \<le> length (timers (env s))"
    by (rule length_filter_le)
  moreover from assms have "length (timers (env s)) \<le> 1"
    by (simp add: wf_sys_def)
  ultimately have "length (filter (\<lambda>p. \<not> due p \<le> clock (env s) + d) (timers (env s))) \<le> 1"
    by (rule le_trans)
  with assms show ?thesis
    by (auto simp add: wf_sys_def advance_def Let_def)
qed

lemma wf_step: "wf_sys tc s \<Longrightarrow> wf_sys tc (step s ev)"
proof (cases ev)
  case (Change newValue e)
  assume wf: "wf_sys tc s"
  obtain s' where s': "onChange newValue e s = Inr s'"
    using onChange_total by blast
  with wf have "wf_sys tc s'" by (rule wf_onChange)
  with Change s' show ?thesis by simp
next
  case (Mount editor)
  assume "wf_sys tc s"
  with Mount show ?thesis by (simp add: wf_sys_def editorDidMount_def)
next
  case (Elapse d)
  assume "wf_sys tc s"
  with Elapse show ?thesis by (simp add: wf_advance)
next
  case (DecorationsChanged ed M)
  assume "wf_sys tc s"
  with DecorationsChanged show ?thesis by (simp add: wf_notify_all)
qed

lemma wf_run: "wf_sys tc s \<Longrightarrow> wf_sys tc (run s evs)"
  unfolding run_def by (induction evs arbitrary: s) (simp_all add: wf_step)

lemma wf_reachable: "wf_sys tc (run (constructor tc) evs)"
  by (rule wf_run [OF wf_constructor])

lemma sys_env_update_eq: "\<lparr>this = this s, env = b\<rparr> = s\<lparr>env := b\<rparr>"
  by (cases s) simp

lemma reachable_timers_cases:
  assumes "wf_sys tc s"
  shows "timers (env s) = [] \<or> (\<exists>p. timers (env s) = [p])"
proof (cases "timers (env s)")
  case Nil then show ?thesis by simp
next
  case (Cons p ps)
  with assms have "ps = []" by (simp add: wf_sys_def)
  with Cons show ?thesis by simp
qed


lemma onChange_trace:
  assumes "onChange newValue e s = Inr s'"
  shows "trace (env s') = trace (env s) @ [(clock (env s), ValueChange newValue)] \<and>
         clock (env s') = clock (env s)"
proof (cases "changes e")
  case Nil
  with assms show ?thesis by (auto simp add: onChange_empty emit_def)
next
  case (Cons ch rest)
  with assms show ?thesis
    by (cases "text ch \<in> set (triggerCharacters (this s))")
       (auto simp add: onChange_trigger onChange_other emit_def)
qed


lemma advance_single_due:
  assumes "timers b = [p]" and "due p \<le> clock b + d"
  shows "advance d b = b\<lparr>clock := clock b + d, timers := [], trace := trace b @ [fire (clock b) p]\<rparr>"
  using assms by (simp add: advance_def Let_def)

lemma advance_single_early:
  assumes "timers b = [p]" and "clock b + d < due p"
  shows "advance d b = b\<lparr>clock := clock b + d\<rparr>"
  using assms by (simp add: advance_def Let_def)

lemma advance_none:
  assumes "timers b = []"
  shows "advance d b = b\<lparr>clock := clock b + d\<rparr>"
  using assms by (simp add: advance_def Let_def)


subsection \<open>Runs\<close>

lemma run_Cons: "run s (ev # evs) = run (step s ev) evs"
  by (simp add: run_def)

lemma run_Nil: "run s [] = s"
  by (simp add: run_def)

lemma run_append: "run s (evs @ evs') = run (run s evs) evs'"
  by (simp add: run_def)

subsection \<open>A burst of trigger characters\<close>

lemma step_qualifying:
  assumes wf: "wf_sys tc s" and q: "qualifying tc e"
  shows "step s (Change newValue e) =
           \<lparr>this = (this s)\<lparr>timer := Some (next_handle (env s))\<rparr>,
            env = (env s)\<lparr>next_handle := Suc (next_handle (env s)),
                           timers := [\<lparr>handle = next_handle (env s), due = clock (env s) + 300,
                                       callback = TriggerSuggestCb (modifiedEditor (this s))\<rparr>],
                           trace := trace (env s) @ [(clock (env s), ValueChange newValue)]\<rparr>\<rparr>"
proof -
  from q obtain ch rest where ch: "changes e = ch # rest" "text ch \<in> set tc"
    by (auto simp add: qualifying_def split: list.splits)
  from wf have cfg: "debounceWait (this s) = 300" "triggerCharacters (this s) = tc"
    and own: "\<forall>p\<in>set (timers (env s)). timer (this s) = Some (handle p)"
    by (simp_all add: wf_sys_def)
  from own
  have "filter (\<lambda>p. \<forall>i. timer (this s) = Some i \<longrightarrow> handle p \<noteq> i) (timers (env s)) = []"
    by (rule filter_own_timer)
  with ch cfg show ?thesis
    by (simp add: onChange_trigger emit_def)
qed

lemma rapid_prefix:
  assumes "wf_sys tc s" and "modifiedEditor (this s) = Some ed"
    and "\<forall>k\<in>set ks. qualifying tc (fst (snd k)) \<and> snd (snd k) < 300"
  shows "wf_sys tc (run s (rapid ks)) \<and>
         modifiedEditor (this (run s (rapid ks))) = Some ed \<and>
         clock (env (run s (rapid ks))) = clock (env s) + gaps ks \<and>
         suggestion_requests (run s (rapid ks)) = suggestion_requests s"
  using assms
  supply step.simps [simp del]
proof (induction ks arbitrary: s)
  case Nil
  then show ?case by (simp add: run_Nil)
next
  case (Cons k ks)
  obtain newValue e gap where k: "k = (newValue, e, gap)"
    by (cases k) auto
  with Cons.prems have q: "qualifying tc e" and gap: "gap < 300" by simp_all
  let ?s1 = "step s (Change newValue e)"
  let ?s2 = "step ?s1 (Elapse gap)"
  note s1 = step_qualifying [OF Cons.prems(1) q, of newValue]
  have t1: "timers (env ?s1) = [\<lparr>handle = next_handle (env s), due = clock (env s) + 300,
                                 callback = TriggerSuggestCb (modifiedEditor (this s))\<rparr>]"
    and c1: "clock (env ?s1) = clock (env s)"
    and m1: "modifiedEditor (this ?s1) = Some ed"
    and r1: "trace (env ?s1) = trace (env s) @ [(clock (env s), ValueChange newValue)]"
    by (simp_all add: s1 Cons.prems(2))
  from gap have early: "clock (env ?s1) + gap < due \<lparr>handle = next_handle (env s), due = clock (env s) + 300,
                                 callback = TriggerSuggestCb (modifiedEditor (this s))\<rparr>"
    by (simp add: c1)
  have s2: "?s2 = ?s1\<lparr>env := (env ?s1)\<lparr>clock := clock (env ?s1) + gap\<rparr>\<rparr>"
    using advance_single_early [OF t1 early] by (subst step.simps(3)) (simp)
  have wf2: "wf_sys tc ?s2"
    by (intro wf_step Cons.prems(1))
  have m2: "modifiedEditor (this ?s2) = Some ed"
    by (simp add: s2 m1)
  have c2: "clock (env ?s2) = clock (env s) + gap"
    by (simp add: s2 c1)
  have r2: "suggestion_requests ?s2 = suggestion_requests s"
    by (simp add: s2 suggestion_requests_def r1)
  from Cons.prems(3) have rest: "\<forall>k\<in>set ks. qualifying tc (fst (snd k)) \<and> snd (snd k) < 300"
    by simp
  note IH = Cons.IH [OF wf2 m2 rest]
  have "run s (rapid (k # ks)) = run ?s2 (rapid ks)"
    by (simp add: k run_Cons)
  with IH show ?case
    by (simp add: c2 r2 k)
qed

lemma last_keystroke_fires:
  assumes "wf_sys tc s" and "modifiedEditor (this s) = Some ed"
    and "qualifying tc e" and "300 \<le> rest"
  shows "suggestion_requests (run s [Change newValue e, Elapse rest]) =
         suggestion_requests s @
         [(clock (env s) + 300, TriggerCall ed ''manual_trigger'' ''editor.action.triggerSuggest'')]"
  supply step.simps [simp del]
proof -
  let ?s1 = "step s (Change newValue e)"
  let ?p = "\<lparr>handle = next_handle (env s), due = clock (env s) + 300,
             callback = TriggerSuggestCb (modifiedEditor (this s))\<rparr>"
  note s1 = step_qualifying [OF assms(1) assms(3), of newValue]
  have t1: "timers (env ?s1) = [?p]"
    and c1: "clock (env ?s1) = clock (env s)"
    and r1: "trace (env ?s1) = trace (env s) @ [(clock (env s), ValueChange newValue)]"
    by (simp_all add: s1)
  from assms(4) have "due ?p \<le> clock (env ?s1) + rest"
    by (simp add: c1)
  note adv = advance_single_due [OF t1 this]
  have "trace (env (step ?s1 (Elapse rest))) =
        trace (env s) @ [(clock (env s), ValueChange newValue),
                         (clock (env s) + 300,
                          TriggerCall ed ''manual_trigger'' ''editor.action.triggerSuggest'')]"
    by (subst step.simps(3)) (simp add: adv r1 c1 fire_def assms(2))
  then show ?thesis
    by (simp add: run_Cons run_Nil suggestion_requests_def)
qed

lemma rapid_keystrokes:
  assumes "wf_sys tc s" and "modifiedEditor (this s) = Some ed"
    and "\<forall>k\<in>set ks. qualifying tc (fst (snd k)) \<and> snd (snd k) < 300"
    and "qualifying tc e" and "300 \<le> rest"
  shows "suggestion_requests (run s (rapid ks @ [Change newValue e, Elapse rest])) =
         suggestion_requests s @
         [(clock (env s) + gaps ks + 300,
           TriggerCall ed ''manual_trigger'' ''editor.action.triggerSuggest'')]"
proof -
  note pre = rapid_prefix [OF assms(1,2,3)]
  from pre have wf': "wf_sys tc (run s (rapid ks))"
    and m': "modifiedEditor (this (run s (rapid ks))) = Some ed"
    by simp_all
  from last_keystroke_fires [OF wf' m' assms(4,5), of newValue] pre
  show ?thesis by (simp add: run_append)
qed

subsection \<open>No error once mounted\<close>

lemma mounted_ok_onChange:
  assumes "mounted_ok s" and "onChange newValue e s = Inr s'"
  shows "mounted_ok s'"
proof (cases "changes e")
  case Nil
  with assms show ?thesis
    by (auto simp add: onChange_empty mounted_ok_def emit_def)
next
  case (Cons ch rest)
  with assms show ?thesis
    by (cases "text ch \<in> set (triggerCharacters (this s))")
       (auto simp add: onChange_trigger onChange_other mounted_ok_def emit_def)
qed

lemma fire_mounted:
  assumes "callback p \<noteq> TriggerSuggestCb None"
  shows "snd (fire now p) \<noteq> UncaughtError err"
proof (cases "callback p")
  case (TriggerSuggestCb h)
  with assms obtain ed where "h = Some ed" by (cases h) auto
  with TriggerSuggestCb show ?thesis by (simp add: fire_def)
qed

lemma mounted_ok_advance:
  assumes "mounted_ok s"
  shows "mounted_ok (s\<lparr>env := advance d (env s)\<rparr>)"
  using assms by (auto simp add: mounted_ok_def advance_def Let_def fire_mounted)

lemma listener_mounted:
  assumes "modifiedEditor c \<noteq> None"
  shows "\<exists>xs. onDidChangeModelDecorations_listener M c = Inr xs \<and>
              (\<forall>x\<in>set xs. \<forall>err. x \<noteq> UncaughtError err)"
  using assms
  by (auto simp add: onDidChangeModelDecorations_listener_def Let_def split: option.splits)

lemma mounted_ok_notify:
  assumes "mounted_ok s"
  shows "mounted_ok (notify M s)"
proof -
  from assms have "modifiedEditor (this s) \<noteq> None" by (simp add: mounted_ok_def)
  from listener_mounted [OF this, of M] obtain xs
    where xs: "onDidChangeModelDecorations_listener M (this s) = Inr xs"
      "\<forall>x\<in>set xs. \<forall>err. x \<noteq> UncaughtError err"
    by blast
  with assms show ?thesis
    by (auto simp add: mounted_ok_def notify_def emit_all_def)
qed

lemma mounted_ok_notify_all:
  "mounted_ok s \<Longrightarrow> mounted_ok (foldl (\<lambda>s' _. notify M s') s ls)"
  by (induction ls arbitrary: s) (simp_all add: mounted_ok_notify)

lemma mounted_ok_step: "mounted_ok s \<Longrightarrow> mounted_ok (step s ev)"
proof (cases ev)
  case (Change newValue e)
  assume ok: "mounted_ok s"
  obtain s' where s': "onChange newValue e s = Inr s'"
    using onChange_total by blast
  with ok have "mounted_ok s'" by (rule mounted_ok_onChange)
  with Change s' show ?thesis by simp
next
  case (Mount editor)
  assume "mounted_ok s"
  with Mount show ?thesis by (simp add: mounted_ok_def editorDidMount_def)
next
  case (Elapse d)
  assume "mounted_ok s"
  with Elapse show ?thesis by (simp add: mounted_ok_advance)
next
  case (DecorationsChanged ed M)
  assume "mounted_ok s"
  with DecorationsChanged show ?thesis by (simp add: mounted_ok_notify_all)
qed

lemma mounted_ok_run: "mounted_ok s \<Longrightarrow> mounted_ok (run s evs)"
  unfolding run_def by (induction evs arbitrary: s) (simp_all add: mounted_ok_step)

lemma mounted_ok_first: "mounted_ok (step (constructor tc) (Mount editor))"
  by (simp add: mounted_ok_def constructor_def editorDidMount_def)

subsection \<open>Decimal digits\<close>

lemma digit_value_nth:
  assumes "n < 10"
  shows "digit_value (''0123456789'' ! n) = n \<and> ''0123456789'' ! n \<in> set ''0123456789''"
proof -
  from assms have "n \<in> {0, 1, 2, 3, 4, 5, 6, 7, 8, 9}" by auto
  then show ?thesis
    by (auto simp add: digit_value_def)
qed

lemma decimal_snoc: "decimal (cs @ [c]) = 10 * decimal cs + digit_value c"
  by (simp add: decimal_def)

lemma decimal_decimal_digits: "decimal (decimal_digits n) = n"
proof (induction n rule: decimal_digits.induct)
  case (1 n)
  show ?case
  proof (cases "n < 10")
    case True
    then show ?thesis
      using digit_value_nth [of n]
      by (subst decimal_digits.simps) (simp add: decimal_def)
  next
    case False
    with 1 have IH: "decimal (decimal_digits (n div 10)) = n div 10" by simp
    have "n mod 10 < 10" by simp
    from digit_value_nth [OF this] have "digit_value (''0123456789'' ! (n mod 10)) = n mod 10"
      by simp
    with False IH show ?thesis
      by (subst decimal_digits.simps) (simp add: decimal_snoc)
  qed
qed

lemma set_decimal_digits: "set (decimal_digits n) \<subseteq> set ''0123456789''"
proof (induction n rule: decimal_digits.induct)
  case (1 n)
  show ?case
  proof (cases "n < 10")
    case True
    with digit_value_nth [of n] show ?thesis
      by (subst decimal_digits.simps) simp
  next
    case False
    with 1 have IH: "set (decimal_digits (n div 10)) \<subseteq> set ''0123456789''" by simp
    have "n mod 10 < 10" by simp
    from digit_value_nth [OF this] have "''0123456789'' ! (n mod 10) \<in> set ''0123456789''"
      by simp
    with False IH show ?thesis
      by (subst decimal_digits.simps) simp
  qed
qed

lemma safe_integer_range: "unat (x :: safe_integer) < 2 ^ 53"
  using unsigned_less [of x, where 'a = nat] by simp

lemma decimal_ToString: "decimal (ToString x) = unat x"
  by (simp add: ToString_def decimal_decimal_digits)

lemma digits_ToString: "set (ToString x) \<subseteq> set ''0123456789''"
  unfolding ToString_def by (rule set_decimal_digits)

subsection \<open>The decoration listener on a json model\<close>




subsection \<open>Evaluation of concrete runs\<close>

lemmas model_defs =
  run_def constructor_def onChange_def index_def setTimeout_def clearTimeout_def
  onValueChange_def emit_def emit_all_def advance_def fire_def editorDidMount_def notify_def
  onDidChangeModelDecorations_listener_def Let_def

section \<open>The claims\<close>

text \<open>
  \<^bold>\<open>C1.\<close> At most one pending trigger is outstanding at any time. In every state the
  component reaches from its constructor, by any sequence of events, the timer table holds
  at most one timer. For every change event whose first insertion's text is a trigger
  character, \<^verbatim>\<open>onChange\<close> returns normally and leaves exactly one timer in the table:
  the new one, under a fresh handle that \<^verbatim>\<open>this.timer\<close> now holds, due 300 units from
  now. Every timer that was outstanding before the call is gone, so the new trigger
  supersedes the prior one.
\<close>
theorem at_most_one_pending_trigger:
  assumes "s = run (constructor tc) evs"
  shows "length (timers (env s)) \<le> 1 \<and>
         (\<forall>newValue e ch rest.
            changes e = ch # rest \<and> text ch \<in> set tc \<longrightarrow>
            (\<exists>s'. onChange newValue e s = Inr s' \<and>
                  timer (this s') = Some (next_handle (env s)) \<and>
                  timers (env s') =
                    [\<lparr>handle = next_handle (env s), due = clock (env s) + 300,
                      callback = TriggerSuggestCb (modifiedEditor (this s))\<rparr>] \<and>
                  (\<forall>p\<in>set (timers (env s)). p \<notin> set (timers (env s')))))"
proof -
  have wf: "wf_sys tc s"
    unfolding assms by (rule wf_reachable)
  then have own: "\<forall>p\<in>set (timers (env s)). timer (this s) = Some (handle p)"
    and fresh: "\<forall>p\<in>set (timers (env s)). handle p < next_handle (env s)"
    and len: "length (timers (env s)) \<le> 1"
    and cfg: "debounceWait (this s) = 300" "triggerCharacters (this s) = tc"
    by (simp_all add: wf_sys_def)
  from own
  have cleared: "filter (\<lambda>p. \<forall>i. timer (this s) = Some i \<longrightarrow> handle p \<noteq> i) (timers (env s)) = []"
    by (rule filter_own_timer)
  have "\<exists>s'. onChange newValue e s = Inr s' \<and>
             timer (this s') = Some (next_handle (env s)) \<and>
             timers (env s') =
               [\<lparr>handle = next_handle (env s), due = clock (env s) + 300,
                 callback = TriggerSuggestCb (modifiedEditor (this s))\<rparr>] \<and>
             (\<forall>p\<in>set (timers (env s)). p \<notin> set (timers (env s')))"
    if q: "changes e = ch # rest" "text ch \<in> set tc" for newValue e ch rest
  proof -
    from q cfg have "text ch \<in> set (triggerCharacters (this s))" by simp
    with q(1) show ?thesis
      using cleared fresh cfg by (auto simp add: onChange_trigger emit_def)
  qed
  with len show ?thesis by blast
qed


theorem at_most_one_pending_trigger_witness:
  "length (timers (env (run (constructor ['':''])
      [Change ''a:'' \<lparr>changes = [\<lparr>text = '':'', rangeOffset = 4, rangeLength = 0\<rparr>]\<rparr>]))) = 1 \<and>
   (\<exists>s'. onChange ''a::'' \<lparr>changes = [\<lparr>text = '':'', rangeOffset = 2, rangeLength = 0\<rparr>]\<rparr>
            (run (constructor ['':''])
              [Change ''a:'' \<lparr>changes = [\<lparr>text = '':'', rangeOffset = 4, rangeLength = 0\<rparr>]\<rparr>]) = Inr s' \<and>
         timer (this s') = Some 2 \<and>
         timers (env s') = [\<lparr>handle = 2, due = 300, callback = TriggerSuggestCb None\<rparr>])"
proof -
  let ?e1 = "\<lparr>changes = [\<lparr>text = '':'', rangeOffset = 4, rangeLength = 0\<rparr>]\<rparr>"
  let ?e2 = "\<lparr>changes = [\<lparr>text = '':'', rangeOffset = 2, rangeLength = 0\<rparr>]\<rparr>"
  let ?s = "run (constructor ['':'']) [Change ''a:'' ?e1]"
  have s: "env ?s = \<lparr>clock = 0, next_handle = 2,
                     timers = [\<lparr>handle = 1, due = 300, callback = TriggerSuggestCb None\<rparr>],
                     listeners = [], trace = [(0, ValueChange ''a:'')]\<rparr>"
    "modifiedEditor (this ?s) = None"
    by (simp_all add: model_defs)
  have q: "changes ?e2 = \<lparr>text = '':'', rangeOffset = 2, rangeLength = 0\<rparr> # [] \<and>
           text \<lparr>text = '':'', rangeOffset = 2, rangeLength = 0\<rparr> \<in> set ['':'']"
    by simp
  from at_most_one_pending_trigger [OF refl, of "['':'']" "[Change ''a:'' ?e1]",
      THEN conjunct2, rule_format, OF q, of "''a::''"]
  show ?thesis by (auto simp add: s)
qed

text \<open>
  \<^bold>\<open>C2.\<close> Rapid repeated matching keystrokes give one suggestion request, for the last
  of them. From any reachable state in which the component is mounted on editor \<open>ed\<close>:
  after a burst of change events that each start with a trigger character, each followed
  by a pause shorter than the delay of 300, then one more such change event and a pause
  of at least 300, the suggestion requests are those there were before plus exactly one,
  on \<open>ed\<close>, 300 units after the last change event. None of the timers scheduled earlier
  in the burst fires. The scenario of the specification is the second part: with trigger
  characters \<open>"\<close> and \<open>:\<close>, mounted, a change event starting with \<open>"\<close> at time \<open>t0\<close>,
  one starting with \<open>:\<close> at most 100 units later, and then at least 300 units of quiet,
  the whole trace is the two value-change calls and one suggestion request, 300 units
  after the \<open>:\<close> keystroke.
\<close>
theorem rapid_keystrokes_fire_once:
  assumes "s = run (constructor tc) evs" and "modifiedEditor (this s) = Some ed"
    and "\<forall>k\<in>set ks. qualifying tc (fst (snd k)) \<and> snd (snd k) < 300"
    and "qualifying tc e"
    and "300 \<le> rest" and "d \<le> 100"
    and "text c1 = [CHR 0x22]" and "text c2 = '':''"
  shows "suggestion_requests (run s (rapid ks @ [Change newValue e, Elapse rest])) =
           suggestion_requests s @
           [(clock (env s) + gaps ks + 300,
             TriggerCall ed ''manual_trigger'' ''editor.action.triggerSuggest'')] \<and>
         trace (env (run (constructor [[CHR 0x22], '':''])
           [Mount editor, Elapse t0,
            Change v1 \<lparr>changes = c1 # r1\<rparr>, Elapse d,
            Change v2 \<lparr>changes = c2 # r2\<rparr>, Elapse rest])) =
           [(t0, ValueChange v1), (t0 + d, ValueChange v2),
            (t0 + d + 300,
             TriggerCall (de_modifiedEditor editor) ''manual_trigger''
               ''editor.action.triggerSuggest'')]"
proof -
  have wf: "wf_sys tc s"
    unfolding assms(1) by (rule wf_reachable)
  note general = rapid_keystrokes [OF wf assms(2) assms(3) assms(4) assms(5), of newValue]
  from assms(6) have early: "\<not> 300 \<le> d" by simp
  have scenario: "trace (env (run (constructor [[CHR 0x22], '':''])
           [Mount editor, Elapse t0,
            Change v1 \<lparr>changes = c1 # r1\<rparr>, Elapse d,
            Change v2 \<lparr>changes = c2 # r2\<rparr>, Elapse rest])) =
           [(t0, ValueChange v1), (t0 + d, ValueChange v2),
            (t0 + d + 300,
             TriggerCall (de_modifiedEditor editor) ''manual_trigger''
               ''editor.action.triggerSuggest'')]"
    using early assms(5) by (simp add: model_defs assms(7,8))
  from general scenario show ?thesis by simp
qed

theorem rapid_keystrokes_fire_once_witness:
  "suggestion_requests (run (constructor [[CHR 0x22], '':''])
     ([Mount \<lparr>de_originalEditor = 10, de_modifiedEditor = 11\<rparr>, Elapse 50] @
      rapid [(''a'', \<lparr>changes = [\<lparr>text = [CHR 0x22], rangeOffset = 0, rangeLength = 0\<rparr>]\<rparr>, 100),
             (''b'', \<lparr>changes = [\<lparr>text = '':'', rangeOffset = 2, rangeLength = 0\<rparr>]\<rparr>, 299)] @
      [Change ''c'' \<lparr>changes = [\<lparr>text = '':'', rangeOffset = 3, rangeLength = 0\<rparr>]\<rparr>,
       Elapse 300])) =
   [(749, TriggerCall 11 ''manual_trigger'' ''editor.action.triggerSuggest'')]"
proof -
  let ?tc = "[[CHR 0x22], '':'']"
  let ?pre = "[Mount \<lparr>de_originalEditor = 10, de_modifiedEditor = 11\<rparr>, Elapse 50]"
  let ?ks = "[(''a'', \<lparr>changes = [\<lparr>text = [CHR 0x22], rangeOffset = 0, rangeLength = 0\<rparr>]\<rparr>, 100::nat),
             (''b'', \<lparr>changes = [\<lparr>text = '':'', rangeOffset = 2, rangeLength = 0\<rparr>]\<rparr>, 299)]"
  let ?e = "\<lparr>changes = [\<lparr>text = '':'', rangeOffset = 3, rangeLength = 0\<rparr>]\<rparr>"
  let ?s = "run (constructor ?tc) ?pre"
  have s: "this ?s = \<lparr>timer = None, debounceWait = 300, modifiedEditor = Some 11,
                       triggerCharacters = ?tc\<rparr>"
    "env ?s = \<lparr>clock = 50, next_handle = 1, timers = [], listeners = [11], trace = []\<rparr>"
    by (simp_all add: model_defs)
  have m: "modifiedEditor (this ?s) = Some 11" by (simp add: s)
  have ks: "\<forall>k\<in>set ?ks. qualifying ?tc (fst (snd k)) \<and> snd (snd k) < 300"
    by (simp add: qualifying_def)
  have q: "qualifying ?tc ?e" by (simp add: qualifying_def)
  have r: "(300::nat) \<le> 300" and d: "(100::nat) \<le> 100" by simp_all
  have c1: "text \<lparr>text = [CHR 0x22], rangeOffset = 0, rangeLength = 0\<rparr> = [CHR 0x22]"
    and c2: "text \<lparr>text = '':'', rangeOffset = 2, rangeLength = 0\<rparr> = '':''"
    by simp_all
  from rapid_keystrokes_fire_once [where newValue = "''c''", OF refl m ks q r d c1 c2, THEN conjunct1]
  have "suggestion_requests (run ?s (rapid ?ks @ [Change ''c'' ?e, Elapse 300])) =
        [(749, TriggerCall 11 ''manual_trigger'' ''editor.action.triggerSuggest'')]"
    by (simp add: s suggestion_requests_def)
  then show ?thesis
    by (simp only: run_append)
qed

text \<open>
  \<^bold>\<open>C3.\<close> The statement is that, with no editor handle in the state when a change event
  with a trigger character arrives, scheduling is skipped or the fired trigger does
  nothing, so that the dereference of an absent handle is never reached. It fails for a
  component that gets such a change event before \<^verbatim>\<open>editorDidMount\<close>: the timer is
  scheduled all the same, with \<^verbatim>\<open>null\<close> captured, and when it fires 300 units later the
  call of \<^verbatim>\<open>trigger\<close> on \<^verbatim>\<open>null\<close> raises.
\<close>
theorem unmounted_trigger_raises_counterexample:
  "timers (env (run (constructor ['':''])
      [Change ''a:'' \<lparr>changes = [\<lparr>text = '':'', rangeOffset = 4, rangeLength = 0\<rparr>]\<rparr>])) =
     [\<lparr>handle = 1, due = 300, callback = TriggerSuggestCb None\<rparr>] \<and>
   trace (env (run (constructor ['':''])
      [Change ''a:'' \<lparr>changes = [\<lparr>text = '':'', rangeOffset = 4, rangeLength = 0\<rparr>]\<rparr>,
       Elapse 300])) =
     [(0, ValueChange ''a:''), (300, UncaughtError TypeError)]"
  by (simp add: model_defs)

text \<open>
  \<^bold>\<open>C3, as amended.\<close> With no editor handle in the state, \<^verbatim>\<open>onChange\<close> on a change
  event with a trigger character still returns normally, and it does schedule: the new
  timer's callback has captured the absent handle, and running that callback raises a
  \<open>TypeError\<close>. A scheduled callback raises exactly when the handle it captured is
  absent. In every run that starts with \<^verbatim>\<open>editorDidMount\<close>, whatever events follow, no
  handler and no fired trigger ever raises.
\<close>
theorem trigger_error_only_when_scheduled_unmounted:
  assumes "modifiedEditor (this s) = None"
    and "changes e = ch # rest" and "text ch \<in> set (triggerCharacters (this s))"
  shows "(\<exists>s'. onChange newValue e s = Inr s' \<and>
               (\<exists>p\<in>set (timers (env s')).
                  handle p = next_handle (env s) \<and>
                  callback p = TriggerSuggestCb None \<and>
                  run_callback (callback p) = Inl TypeError)) \<and>
         (\<forall>h. run_callback (TriggerSuggestCb h) = Inl TypeError \<longleftrightarrow> h = None) \<and>
         (\<forall>tc editor evs. \<forall>x\<in>set (trace (env (run (constructor tc) (Mount editor # evs)))).
            snd x \<noteq> UncaughtError TypeError)"
proof -
  from assms have a: "\<exists>s'. onChange newValue e s = Inr s' \<and>
               (\<exists>p\<in>set (timers (env s')).
                  handle p = next_handle (env s) \<and>
                  callback p = TriggerSuggestCb None \<and>
                  run_callback (callback p) = Inl TypeError)"
    by (simp add: onChange_trigger emit_def)
  have b: "run_callback (TriggerSuggestCb h) = Inl TypeError \<longleftrightarrow> h = None" for h
    by (cases h) simp_all
  have c: "snd x \<noteq> UncaughtError TypeError"
    if "x \<in> set (trace (env (run (constructor tc) (Mount editor # evs))))" for tc editor evs x
  proof -
    have "mounted_ok (run (step (constructor tc) (Mount editor)) evs)"
      by (rule mounted_ok_run [OF mounted_ok_first])
    with that show ?thesis
      by (simp add: run_Cons mounted_ok_def del: step.simps)
  qed
  from a b c show ?thesis by blast
qed

theorem trigger_error_only_when_scheduled_unmounted_witness:
  "modifiedEditor (this (constructor ['':''])) = None \<and>
   (\<exists>s'. onChange ''a:'' \<lparr>changes = [\<lparr>text = '':'', rangeOffset = 4, rangeLength = 0\<rparr>]\<rparr>
            (constructor ['':'']) = Inr s' \<and>
         (\<exists>p. p \<in> set (timers (env s')) \<and> run_callback (callback p) = Inl TypeError)) \<and>
   snd (last (trace (env (run (constructor ['':''])
       [Mount \<lparr>de_originalEditor = 10, de_modifiedEditor = 11\<rparr>,
        Change ''a:'' \<lparr>changes = [\<lparr>text = '':'', rangeOffset = 4, rangeLength = 0\<rparr>]\<rparr>,
        Elapse 300])))) \<noteq> UncaughtError TypeError"
proof -
  let ?e = "\<lparr>changes = [\<lparr>text = '':'', rangeOffset = 4, rangeLength = 0\<rparr>]\<rparr>"
  let ?evs = "[Change ''a:'' ?e, Elapse 300]"
  let ?editor = "\<lparr>de_originalEditor = 10, de_modifiedEditor = 11\<rparr>"
  have a: "modifiedEditor (this (constructor ['':''])) = None"
    by (simp add: constructor_def)
  have b: "changes ?e = \<lparr>text = '':'', rangeOffset = 4, rangeLength = 0\<rparr> # []" by simp
  have c: "text \<lparr>text = '':'', rangeOffset = 4, rangeLength = 0\<rparr> \<in>
           set (triggerCharacters (this (constructor ['':''])))"
    by (simp add: constructor_def)
  have "trace (env (run (constructor ['':'']) (Mount ?editor # ?evs))) \<noteq> []"
    by (simp add: model_defs)
  then have d: "last (trace (env (run (constructor ['':'']) (Mount ?editor # ?evs)))) \<in>
                set (trace (env (run (constructor ['':'']) (Mount ?editor # ?evs))))"
    by (rule last_in_set)
  note inst = trigger_error_only_when_scheduled_unmounted [OF a b c, of "''a:''"]
  from inst [THEN conjunct1] inst [THEN conjunct2, THEN conjunct2, rule_format, OF d] a
  show ?thesis by blast
qed

text \<open>
  \<^bold>\<open>C4.\<close> The lint marker formatter is total and keeps the order: for every list of
  markers whose line and column numbers are safe integers (\<open>0 \<le> n < 2\<^sup>5\<^sup>3\<close>, which is
  every value of the type of these fields) it gives a list of the same length whose
  \<open>i\<close>-th string is \<open>Lint error on line {start} columns {startCol}-{endCol}: {message}\<close>
  for the \<open>i\<close>-th marker, where a number is written as its decimal digits (reading the
  digits back gives the number). The empty list gives the empty list, and the marker on
  line 3, columns 5 to 9, with message \<open>bad token\<close> gives
  \<open>Lint error on line 3 columns 5-9: bad token\<close>.
\<close>
theorem lint_marker_formatter:
  "formatMarkers [] = [] \<and>
   length (formatMarkers markers) = length markers \<and>
   (\<forall>i<length markers.
      formatMarkers markers ! i =
        ''Lint error on line '' @ ToString (startLineNumber (markers ! i)) @ '' columns '' @
        ToString (startColumn (markers ! i)) @ ''-'' @ ToString (endColumn (markers ! i)) @
        '': '' @ message (markers ! i)) \<and>
   (\<forall>x. unat x < 2 ^ 53 \<and> decimal (ToString x) = unat x \<and>
        set (ToString x) \<subseteq> set ''0123456789'') \<and>
   formatMarkers [\<lparr>startLineNumber = 3, startColumn = 5, endLineNumber = el, endColumn = 9,
                   message = ''bad token''\<rparr>] =
     [''Lint error on line 3 columns 5-9: bad token'']"
proof -
  have shape: "\<forall>i<length markers.
      formatMarkers markers ! i =
        ''Lint error on line '' @ ToString (startLineNumber (markers ! i)) @ '' columns '' @
        ToString (startColumn (markers ! i)) @ ''-'' @ ToString (endColumn (markers ! i)) @
        '': '' @ message (markers ! i)"
    by (simp add: formatMarkers_def formatMarker_def)
  have digits: "\<forall>x. unat x < 2 ^ 53 \<and> decimal (ToString x) = unat x \<and>
        set (ToString x) \<subseteq> set ''0123456789''"
    using safe_integer_range decimal_ToString digits_ToString by blast
  have t: "ToString 3 = ''3''" "ToString 5 = ''5''" "ToString 9 = ''9''"
    by (simp_all add: ToString_def decimal_digits.simps)
  have example: "formatMarkers [\<lparr>startLineNumber = 3, startColumn = 5, endLineNumber = el,
                   endColumn = 9, message = ''bad token''\<rparr>] =
     [''Lint error on line 3 columns 5-9: bad token'']"
    by (simp add: formatMarkers_def formatMarker_def t)
  have "formatMarkers [] = []" "length (formatMarkers markers) = length markers"
    by (simp_all add: formatMarkers_def)
  with shape digits example show ?thesis by blast
qed

theorem lint_marker_formatter_witness:
  "formatMarkers
     [\<lparr>startLineNumber = 12, startColumn = 1, endLineNumber = 12, endColumn = 40, message = ''x''\<rparr>,
      \<lparr>startLineNumber = 9007199254740991, startColumn = 105, endLineNumber = 8, endColumn = 2,
       message = ''''\<rparr>] ! 1 =
   ''Lint error on line 9007199254740991 columns 105-2: ''"
proof -
  let ?ms = "[\<lparr>startLineNumber = 12, startColumn = 1, endLineNumber = 12, endColumn = 40, message = ''x''\<rparr>,
      \<lparr>startLineNumber = 9007199254740991, startColumn = 105, endLineNumber = 8, endColumn = 2,
       message = ''''\<rparr>]"
  have i: "1 < length ?ms" by simp
  have t: "ToString 9007199254740991 = ''9007199254740991''" "ToString 105 = ''105''"
    "ToString 2 = ''2''"
    by (simp_all add: ToString_def decimal_digits.simps)
  from lint_marker_formatter [of ?ms, THEN conjunct2, THEN conjunct2, THEN conjunct1, rule_format, OF i]
  show ?thesis by (simp add: t)
qed

text \<open>
  \<^bold>\<open>C5.\<close> For every change event with an empty insertion list, in any state,
  \<^verbatim>\<open>onChange\<close> completes normally (the result is \<open>Inr\<close>), and all it does is call the
  value-change callback: the timer table, the next timer handle and the component's own
  fields, \<^verbatim>\<open>this.timer\<close> among them, are unchanged.
\<close>
theorem empty_change_schedules_nothing:
  assumes "changes e = []"
  shows "onChange newValue e s = Inr (s\<lparr>env := emit (ValueChange newValue) (env s)\<rparr>) \<and>
         (\<exists>s'. onChange newValue e s = Inr s' \<and>
               timers (env s') = timers (env s) \<and>
               next_handle (env s') = next_handle (env s) \<and>
               this s' = this s)"
  using assms by (simp add: onChange_empty sys_env_update_eq emit_def)


theorem empty_change_schedules_nothing_witness:
  "changes \<lparr>changes = []\<rparr> = [] \<and>
   onChange ''abc'' \<lparr>changes = []\<rparr> (constructor ['':'']) =
     Inr ((constructor ['':''])\<lparr>env := emit (ValueChange ''abc'') (env (constructor ['':'']))\<rparr>)"
  using empty_change_schedules_nothing [of "\<lparr>changes = []\<rparr>" "''abc''" "constructor ['':'']"]
  by simp

text \<open>
  \<^bold>\<open>C6.\<close> The value-change callback is invoked for every change event: in any state and
  for any event, \<^verbatim>\<open>onChange\<close> returns normally and the trace grows by exactly one call
  of the value-change callback, with the raw new text, whatever was or was not
  scheduled. Two change events in a row with the same value give two calls with that
  value: nothing is deduplicated.
\<close>
theorem value_change_always_forwarded:
  "(\<exists>s'. onChange newValue e s = Inr s' \<and>
         trace (env s') = trace (env s) @ [(clock (env s), ValueChange newValue)]) \<and>
   trace (env (run s [Change newValue e, Change newValue e'])) =
     trace (env s) @ [(clock (env s), ValueChange newValue), (clock (env s), ValueChange newValue)]"
proof -
  obtain s1 where s1: "onChange newValue e s = Inr s1"
    using onChange_total by blast
  obtain s2 where s2: "onChange newValue e' s1 = Inr s2"
    using onChange_total by blast
  note t1 = onChange_trace [OF s1] and t2 = onChange_trace [OF s2]
  have "run s [Change newValue e, Change newValue e'] = s2"
    by (simp add: run_def s1 s2)
  with s1 t1 t2 show ?thesis by simp
qed

text \<open>
  \<^bold>\<open>C7.\<close> In every reachable state and for every decoration-change event, on any
  editor: if the model of the editor in the component's state is absent or its mode is
  not \<open>json\<close>, handling the event changes nothing at all; the trace in particular gets
  neither a call of the lint-error callback nor a read of the markers. When the
  component is mounted, the listener itself returns normally with no effect.
\<close>
theorem decoration_change_guard:
  assumes "s = run (constructor tc) evs"
    and "\<forall>ed'. modifiedEditor (this s) = Some ed' \<longrightarrow>
           getModel M ed' = None \<or> (\<exists>mdl. getModel M ed' = Some mdl \<and> modeId mdl \<noteq> ''json'')"
  shows "step s (DecorationsChanged ed M) = s \<and>
         (modifiedEditor (this s) \<noteq> None \<longrightarrow>
            onDidChangeModelDecorations_listener M (this s) = Inr [])"
proof -
  have wf: "wf_sys tc s"
    unfolding assms(1) by (rule wf_reachable)
  have quiet: "onDidChangeModelDecorations_listener M (this s) = Inr []"
    if "modifiedEditor (this s) \<noteq> None"
  proof -
    from that obtain ed' where ed': "modifiedEditor (this s) = Some ed'" by auto
    with assms(2) have "getModel M ed' = None \<or>
        (\<exists>mdl. getModel M ed' = Some mdl \<and> modeId mdl \<noteq> ''json'')" by simp
    with ed' show ?thesis
      by (auto simp add: onDidChangeModelDecorations_listener_def)
  qed
  have same: "foldl (\<lambda>s' _. notify M s') s ls = s" if "notify M s = s" for ls
    using that by (induction ls) simp_all
  have "step s (DecorationsChanged ed M) = s"
  proof (cases "listeners (env s) = []")
    case True
    then show ?thesis by simp
  next
    case False
    with wf have "modifiedEditor (this s) \<noteq> None" by (simp add: wf_sys_def)
    then have "notify M s = s"
      by (simp add: notify_def quiet emit_all_def)
    then show ?thesis by (simp add: same)
  qed
  with quiet show ?thesis by blast
qed

theorem decoration_change_guard_witness:
  "step (run (constructor ['':'']) [Mount \<lparr>de_originalEditor = 10, de_modifiedEditor = 11\<rparr>])
     (DecorationsChanged 11
        \<lparr>getModel = (\<lambda>ed. if ed = 11 then Some \<lparr>modeId = ''yaml'', uri = ''inmemory://model/2''\<rparr> else None),
         getModelMarkers = (\<lambda>owner resource.
           [\<lparr>startLineNumber = 3, startColumn = 5, endLineNumber = 3, endColumn = 9,
             message = ''bad token''\<rparr>])\<rparr>) =
   run (constructor ['':'']) [Mount \<lparr>de_originalEditor = 10, de_modifiedEditor = 11\<rparr>]"
proof -
  let ?M = "\<lparr>getModel = (\<lambda>ed. if ed = 11 then Some \<lparr>modeId = ''yaml'', uri = ''inmemory://model/2''\<rparr> else None),
         getModelMarkers = (\<lambda>owner resource.
           [\<lparr>startLineNumber = 3, startColumn = 5, endLineNumber = 3, endColumn = 9,
             message = ''bad token''\<rparr>])\<rparr>"
  let ?s = "run (constructor ['':'']) [Mount \<lparr>de_originalEditor = 10, de_modifiedEditor = 11\<rparr>]"
  have m: "modifiedEditor (this ?s) = Some 11"
    by (simp add: model_defs)
  have g: "\<forall>ed'. modifiedEditor (this ?s) = Some ed' \<longrightarrow>
           getModel ?M ed' = None \<or> (\<exists>mdl. getModel ?M ed' = Some mdl \<and> modeId mdl \<noteq> ''json'')"
    by (simp add: m)
  from decoration_change_guard [OF refl g, of 11, THEN conjunct1]
  show ?thesis .
qed

text \<open>
  \<^bold>\<open>C8.\<close> Only the first insertion's text is inspected: two change events with non-empty
  insertion lists whose first insertions have the same text give the same result of
  \<^verbatim>\<open>onChange\<close> in every state, whatever the other fields of the first insertion and
  whatever the later insertions are.
\<close>
theorem only_first_insertion_inspected:
  assumes "changes e1 = c1 # rest1" and "changes e2 = c2 # rest2" and "text c1 = text c2"
  shows "onChange newValue e1 s = onChange newValue e2 s"
proof (cases "text c1 \<in> set (triggerCharacters (this s))")
  case True
  with assms show ?thesis by (simp add: onChange_trigger)
next
  case False
  with assms show ?thesis by (simp add: onChange_other)
qed

theorem only_first_insertion_inspected_witness:
  "onChange ''a:b'' \<lparr>changes = [\<lparr>text = '':'', rangeOffset = 4, rangeLength = 0\<rparr>]\<rparr>
      (constructor ['':'']) =
   onChange ''a:b'' \<lparr>changes = [\<lparr>text = '':'', rangeOffset = 7, rangeLength = 3\<rparr>,
                                \<lparr>text = ''zz'', rangeOffset = 0, rangeLength = 0\<rparr>]\<rparr>
      (constructor ['':''])"
  using only_first_insertion_inspected
    [of "\<lparr>changes = [\<lparr>text = '':'', rangeOffset = 4, rangeLength = 0\<rparr>]\<rparr>"
        "\<lparr>text = '':'', rangeOffset = 4, rangeLength = 0\<rparr>" "[]"
        "\<lparr>changes = [\<lparr>text = '':'', rangeOffset = 7, rangeLength = 3\<rparr>,
                     \<lparr>text = ''zz'', rangeOffset = 0, rangeLength = 0\<rparr>]\<rparr>"
        "\<lparr>text = '':'', rangeOffset = 7, rangeLength = 3\<rparr>"
        "[\<lparr>text = ''zz'', rangeOffset = 0, rangeLength = 0\<rparr>]"
        "''a:b''" "constructor ['':'']"]
  by simp

text \<open>
  \<^bold>\<open>C9.\<close> A non-qualifying change event leaves an outstanding trigger alone. In every
  reachable state, if the insertion list is empty or the first insertion's text is not a
  trigger character, handling the event changes neither the timer table nor
  \<^verbatim>\<open>this.timer\<close> nor the clock; and a timer that was pending still does not fire while
  the time stays before its due time, and fires, once, at its due time when the time
  reaches it.
\<close>
theorem non_qualifying_change_keeps_pending:
  assumes "s = run (constructor tc) evs"
    and "changes e = [] \<or> (\<exists>ch rest. changes e = ch # rest \<and> text ch \<notin> set tc)"
    and "s' = step s (Change newValue e)"
  shows "timers (env s') = timers (env s) \<and> timer (this s') = timer (this s) \<and>
         clock (env s') = clock (env s) \<and>
         (\<forall>p\<in>set (timers (env s)). \<forall>d.
            (clock (env s) + d < due p \<longrightarrow>
               timers (env (step s' (Elapse d))) = timers (env s) \<and>
               trace (env (step s' (Elapse d))) = trace (env s')) \<and>
            (due p \<le> clock (env s) + d \<longrightarrow>
               timers (env (step s' (Elapse d))) = [] \<and>
               trace (env (step s' (Elapse d))) =
                 trace (env s') @
                 [(due p, case run_callback (callback p) of
                            Inl err \<Rightarrow> UncaughtError err | Inr x \<Rightarrow> x)]))"
proof -
  have wf: "wf_sys tc s"
    unfolding assms(1) by (rule wf_reachable)
  then have cfg: "triggerCharacters (this s) = tc"
    by (simp add: wf_sys_def)
  from assms(2) cfg
  have oc: "onChange newValue e s = Inr \<lparr>this = this s, env = emit (ValueChange newValue) (env s)\<rparr>"
    by (auto simp add: onChange_empty onChange_other)
  then have s': "s' = s\<lparr>env := emit (ValueChange newValue) (env s)\<rparr>"
    by (simp add: assms(3) sys_env_update_eq)
  have frame: "timers (env s') = timers (env s)" "timer (this s') = timer (this s)"
    "clock (env s') = clock (env s)"
    by (simp_all add: s' emit_def)
  have "(clock (env s) + d < due p \<longrightarrow>
               timers (env (step s' (Elapse d))) = timers (env s) \<and>
               trace (env (step s' (Elapse d))) = trace (env s')) \<and>
            (due p \<le> clock (env s) + d \<longrightarrow>
               timers (env (step s' (Elapse d))) = [] \<and>
               trace (env (step s' (Elapse d))) =
                 trace (env s') @
                 [(due p, case run_callback (callback p) of
                            Inl err \<Rightarrow> UncaughtError err | Inr x \<Rightarrow> x)])"
    if p: "p \<in> set (timers (env s))" for p d
  proof -
    from wf p have single: "timers (env s) = [p]"
      using reachable_timers_cases [OF wf] by auto
    from wf p have "clock (env s) \<le> due p"
      by (simp add: wf_sys_def)
    then have m: "max (clock (env s)) (due p) = due p" by simp
    from single frame have single': "timers (env s') = [p]" by simp
    show ?thesis
      using advance_single_due [OF single'] advance_single_early [OF single'] single
      by (simp add: frame fire_def m)
  qed
  with frame show ?thesis by blast
qed

theorem non_qualifying_change_keeps_pending_witness:
  "trace (env (run (constructor ['':''])
      [Mount \<lparr>de_originalEditor = 10, de_modifiedEditor = 11\<rparr>,
       Change ''a:'' \<lparr>changes = [\<lparr>text = '':'', rangeOffset = 4, rangeLength = 0\<rparr>]\<rparr>,
       Elapse 100,
       Change ''a:x'' \<lparr>changes = [\<lparr>text = ''x'', rangeOffset = 2, rangeLength = 0\<rparr>]\<rparr>,
       Elapse 200])) =
   [(0, ValueChange ''a:''), (100, ValueChange ''a:x''),
    (300, TriggerCall 11 ''manual_trigger'' ''editor.action.triggerSuggest'')]"
proof -
  let ?pre = "[Mount \<lparr>de_originalEditor = 10, de_modifiedEditor = 11\<rparr>,
       Change ''a:'' \<lparr>changes = [\<lparr>text = '':'', rangeOffset = 4, rangeLength = 0\<rparr>]\<rparr>,
       Elapse 100]"
  let ?e = "\<lparr>changes = [\<lparr>text = ''x'', rangeOffset = 2, rangeLength = 0\<rparr>]\<rparr>"
  let ?p = "\<lparr>handle = 1, due = 300, callback = TriggerSuggestCb (Some 11)\<rparr>"
  let ?s = "run (constructor ['':'']) ?pre"
  have s: "env ?s = \<lparr>clock = 100, next_handle = 2, timers = [?p],
                     listeners = [11], trace = [(0, ValueChange ''a:'')]\<rparr>"
    by (simp add: model_defs)
  have nq: "changes ?e = [] \<or> (\<exists>ch rest. changes ?e = ch # rest \<and> text ch \<notin> set ['':''])"
    by simp
  have p: "?p \<in> set (timers (env ?s))" by (simp add: s)
  have tr: "trace (env (step ?s (Change ''a:x'' ?e))) = [(0, ValueChange ''a:''), (100, ValueChange ''a:x'')]"
    by (simp add: model_defs)
  have split: "run (constructor ['':'']) (?pre @ [Change ''a:x'' ?e, Elapse 200]) =
               step (step ?s (Change ''a:x'' ?e)) (Elapse 200)"
    unfolding run_def foldl_append by simp
  from non_qualifying_change_keeps_pending [where newValue = "''a:x''", OF refl nq refl,
      THEN conjunct2, THEN conjunct2, THEN conjunct2, rule_format, OF p, of 200]
  have "trace (env (step (step ?s (Change ''a:x'' ?e)) (Elapse 200))) =
        trace (env (step ?s (Change ''a:x'' ?e))) @
        [(300, TriggerCall 11 ''manual_trigger'' ''editor.action.triggerSuggest'')]"
    by (simp add: s)
  with tr split show ?thesis by simp
qed



end
